theory Spec2Isabelle
  imports Complex_Main "HOL-Library.Sublist"
begin

section \<open>Token usage estimation (app/services/token\_usage.py)\<close>

text \<open>
  A Python \<open>str\<close> is a sequence of Unicode code points, so it is modelled as a list of
  natural numbers; \<open>ord(ch)\<close> is the list element itself and \<open>len\<close> is \<open>length\<close>.
  String literals of the source are written with \<open>lit\<close>, which maps the ASCII characters of
  a HOL string to their code points.  An argument that may be \<open>None\<close> is an \<open>option\<close>.
  Python integers are unbounded: \<open>int\<close>, with \<open>//\<close> as \<open>div\<close> (both round down).
\<close>

type_synonym pystr = "nat list"

definition lit :: "string \<Rightarrow> pystr" where
  "lit s = map of_char s"

subsection \<open>\<open>_count_tokens\<close>\<close>

text \<open>
  The \<open>for ch in text\<close> loop with its two counters \<open>ascii_count\<close> and \<open>non_ascii\<close>.
\<close>

fun count_loop :: "pystr \<Rightarrow> int \<Rightarrow> int \<Rightarrow> int \<times> int" where
  "count_loop [] ascii_count non_ascii = (ascii_count, non_ascii)"
| "count_loop (ch # rest) ascii_count non_ascii =
     (if ch \<le> 0x7F then count_loop rest (ascii_count + 1) non_ascii
      else count_loop rest ascii_count (non_ascii + 1))"

text \<open>
  \<open>if not text: return 0\<close> covers both \<open>None\<close> and the empty string.
\<close>

definition count_tokens :: "pystr option \<Rightarrow> int" where
  "count_tokens text =
     (case text of
        None \<Rightarrow> 0
      | Some s \<Rightarrow>
          if s = [] then 0
          else (case count_loop s 0 0 of
                  (ascii_count, non_ascii) \<Rightarrow> (ascii_count + 3) div 4 + non_ascii))"

subsection \<open>\<open>_split_think\<close>\<close>

text \<open>
  \<open>output.find(sub, start)\<close>: the lowest index at or after \<open>start\<close> where \<open>sub\<close> occurs.
  Python returns \<open>-1\<close> when there is none (also when \<open>start\<close> is beyond the end); the model
  returns \<open>None\<close> there, so the tests \<open>s < 0\<close> and \<open>e < 0\<close> of the source are the
  \<open>None\<close> branches below.  \<open>find_in\<close> walks the text left to right, carrying the index.
\<close>

primrec find_in :: "'a list \<Rightarrow> 'a list \<Rightarrow> nat \<Rightarrow> nat option" where
  "find_in sub [] i = (if sub = [] then Some i else None)"
| "find_in sub (x # xs) i =
     (if take (length sub) (x # xs) = sub then Some i else find_in sub xs (Suc i))"

definition py_find :: "'a list \<Rightarrow> 'a list \<Rightarrow> nat \<Rightarrow> nat option" where
  "py_find xs sub start =
     (if length xs < start then None else find_in sub (drop start xs) start)"

text \<open>The slice \<open>xs[i:j]\<close> for non-negative \<open>i\<close> and \<open>j\<close> (empty when \<open>j \<le> i\<close>).\<close>

definition py_slice :: "'a list \<Rightarrow> nat \<Rightarrow> nat \<Rightarrow> 'a list" where
  "py_slice xs i j = take (j - i) (drop i xs)"

text \<open>\<open>sep.join(parts)\<close>.\<close>

fun py_join :: "'a list \<Rightarrow> 'a list list \<Rightarrow> 'a list" where
  "py_join sep [] = []"
| "py_join sep [x] = x"
| "py_join sep (x # y # ys) = x @ sep @ py_join sep (y # ys)"

definition think_open :: pystr where
  "think_open = lit ''<think>''"

definition think_close :: pystr where
  "think_close = lit ''</think>''"

lemma find_in_Some:
  "find_in sub ys i = Some k \<Longrightarrow>
     i \<le> k \<and> k - i \<le> length ys \<and> take (length sub) (drop (k - i) ys) = sub"
proof (induction ys arbitrary: i)
  case Nil
  then show ?case by (simp split: if_splits)
next
  case (Cons y ys)
  show ?case
  proof (cases "take (length sub) (y # ys) = sub")
    case True
    with Cons.prems show ?thesis by simp
  next
    case False
    with Cons.prems have "find_in sub ys (Suc i) = Some k" by simp
    from Cons.IH[OF this] have le: "Suc i \<le> k" and len: "k - Suc i \<le> length ys"
      and tk: "take (length sub) (drop (k - Suc i) ys) = sub" by auto
    from le have "k - i = Suc (k - Suc i)" by simp
    with le len tk show ?thesis by simp
  qed
qed

lemma py_find_Some:
  assumes "py_find xs sub start = Some k"
  shows "start \<le> k" and "take (length sub) (drop k xs) = sub"
    and "k + length sub \<le> length xs"
proof -
  from assms have le: "start \<le> length xs"
    and f: "find_in sub (drop start xs) start = Some k"
    by (auto simp: py_find_def split: if_splits)
  from find_in_Some[OF f] have a: "start \<le> k" and b: "k - start \<le> length xs - start"
    and c: "take (length sub) (drop (k - start) (drop start xs)) = sub" by auto
  show "start \<le> k" by fact
  from a c show t: "take (length sub) (drop k xs) = sub" by simp
  have "length (take (length sub) (drop k xs)) = length sub" using t by simp
  then show "k + length sub \<le> length xs"
    using a b le by (simp add: min_def split: if_splits)
qed

lemma length_think_open [simp]: "length think_open = 7"
  by (simp add: think_open_def lit_def)

lemma length_think_close [simp]: "length think_close = 8"
  by (simp add: think_close_def lit_def)

text \<open>
  The \<open>while True\<close> loop of \<open>_split_think\<close>, with its three variables.  Every iteration
  that does not break removes at least the two markers from \<open>output\<close>, which is why the
  loop ends.
\<close>

function split_loop :: "pystr list \<Rightarrow> pystr \<Rightarrow> nat \<Rightarrow> pystr list \<times> pystr" where
  "split_loop reasoning_parts output start =
     (case py_find output think_open start of
        None \<Rightarrow> (reasoning_parts, output)
      | Some s \<Rightarrow>
          (case py_find output think_close (s + 7) of
             None \<Rightarrow> (reasoning_parts, output)
           | Some e \<Rightarrow>
               split_loop (reasoning_parts @ [py_slice output (s + 7) e])
                 (take s output @ drop (e + 8) output) s))"
  by pat_completeness auto
termination
proof (relation "measure (\<lambda>(reasoning_parts, output, start). length output)")
  show "wf (measure (\<lambda>(reasoning_parts, output, start). length output))"
    by simp
next
  fix reasoning_parts :: "pystr list" and out :: pystr and start s e :: nat
  assume "py_find out think_open start = Some s"
    and e: "py_find out think_close (s + 7) = Some e"
  from py_find_Some[OF e] have "s + 7 \<le> e" "e + 8 \<le> length out" by simp_all
  then show "((reasoning_parts @ [py_slice out (s + 7) e],
               take s out @ drop (e + 8) out, s),
              reasoning_parts, out, start)
             \<in> measure (\<lambda>(reasoning_parts, output, start). length output)"
    by simp
qed

declare split_loop.simps [simp del]

definition split_think :: "pystr option \<Rightarrow> pystr \<times> pystr" where
  "split_think text =
     (case text of
        None \<Rightarrow> ([], [])
      | Some t \<Rightarrow>
          if t = [] then ([], [])
          else (case split_loop [] t 0 of
                  (reasoning_parts, output) \<Rightarrow>
                    (py_join (lit ''\<newline>'') reasoning_parts, output)))"

text \<open>
  Vocabulary for texts with reasoning spans.  \<open>assemble v0 [(b1, v1), \<dots>, (bk, vk)]\<close> is
  the text \<open>v0 <think>b1</think> v1 \<dots> <think>bk</think> vk\<close>: visible text \<open>v0\<close>, then \<open>k\<close>
  delimited spans with bodies \<open>bi\<close>, each followed by visible text \<open>vi\<close>.  The spans are
  well formed when every body ends at the nearest closing marker (no body contains
  \<open></think>\<close>) and every opening marker of the text opens one of them (no visible
  segment contains \<open><think>\<close>).  Visible segments may be empty (adjacent spans) and may
  contain stray closing markers.
\<close>

definition assemble :: "pystr \<Rightarrow> (pystr \<times> pystr) list \<Rightarrow> pystr" where
  "assemble v0 spans =
     v0 @ concat (map (\<lambda>(body, after). think_open @ body @ think_close @ after) spans)"

definition well_formed :: "pystr \<Rightarrow> (pystr \<times> pystr) list \<Rightarrow> bool" where
  "well_formed v0 spans \<longleftrightarrow>
     \<not> sublist think_open v0 \<and>
     list_all (\<lambda>(body, after). \<not> sublist think_close body \<and> \<not> sublist think_open after) spans"

subsection \<open>\<open>estimate_prompt_tokens\<close>\<close>

text \<open>
  \<open>ch.isspace()\<close>, the characters that \<open>str.strip()\<close> removes: the code points that
  CPython classifies as whitespace.
\<close>

definition is_space :: "nat \<Rightarrow> bool" where
  "is_space c \<longleftrightarrow>
     (0x09 \<le> c \<and> c \<le> 0x0D) \<or> (0x1C \<le> c \<and> c \<le> 0x20) \<or> c = 0x85 \<or> c = 0xA0
     \<or> c = 0x1680 \<or> (0x2000 \<le> c \<and> c \<le> 0x200A) \<or> c = 0x2028 \<or> c = 0x2029
     \<or> c = 0x202F \<or> c = 0x205F \<or> c = 0x3000"

definition py_strip :: "pystr \<Rightarrow> pystr" where
  "py_strip t = rev (dropWhile is_space (rev (dropWhile is_space t)))"

text \<open>
  \<open>x or ""\<close> for an \<open>x\<close> that is a \<open>str\<close> or \<open>None\<close>, followed by \<open>str(\<dots>)\<close>, which
  returns a \<open>str\<close> unchanged.
\<close>

definition or_empty :: "pystr option \<Rightarrow> pystr" where
  "or_empty x = (case x of None \<Rightarrow> [] | Some s \<Rightarrow> if s = [] then [] else s)"

text \<open>
  A chat message is a dict.  Its \<open>content\<close> is a string, a list of parts, or \<open>None\<close>; a
  part is a dict whose values are strings or \<open>None\<close> (read through \<open>type\<close> and \<open>text\<close>),
  or something that is not a dict.  Dicts are association lists with distinct keys, and
  \<open>d.get(k)\<close> is \<open>None\<close> for a missing key.  Field values of other Python types
  (numbers, nested containers), whose \<open>str(\<dots>)\<close> is the runtime's rendering, are not
  part of this model.
\<close>

datatype item = Dict "(pystr \<times> pystr option) list" | NotDict

datatype content = ContentNone | ContentStr pystr | ContentList "item list"

type_synonym message = "(pystr \<times> content) list"

definition item_get :: "(pystr \<times> pystr option) list \<Rightarrow> pystr \<Rightarrow> pystr option" where
  "item_get d k = (case map_of d k of None \<Rightarrow> None | Some v \<Rightarrow> v)"

definition msg_get :: "message \<Rightarrow> pystr \<Rightarrow> content" where
  "msg_get msg k = (case map_of msg k of None \<Rightarrow> ContentNone | Some v \<Rightarrow> v)"

text \<open>The inner loop \<open>for item in content\<close>, threading \<open>text_parts\<close>.\<close>

fun items_loop :: "item list \<Rightarrow> pystr list \<Rightarrow> pystr list" where
  "items_loop [] text_parts = text_parts"
| "items_loop (NotDict # rest) text_parts = items_loop rest text_parts"
| "items_loop (Dict d # rest) text_parts =
     (if item_get d (lit ''type'') = Some (lit ''text'') then
        (let t = or_empty (item_get d (lit ''text'')) in
         if py_strip t \<noteq> [] then items_loop rest (text_parts @ [t])
         else items_loop rest text_parts)
      else items_loop rest text_parts)"

text \<open>The outer loop \<open>for msg in messages or []\<close>.\<close>

fun messages_loop :: "message list \<Rightarrow> pystr list \<Rightarrow> pystr list" where
  "messages_loop [] text_parts = text_parts"
| "messages_loop (msg # rest) text_parts =
     (case msg_get msg (lit ''content'') of
        ContentList items \<Rightarrow> messages_loop rest (items_loop items text_parts)
      | ContentStr s \<Rightarrow>
          (let t = or_empty (Some s) in
           if py_strip t \<noteq> [] then messages_loop rest (text_parts @ [t])
           else messages_loop rest text_parts)
      | ContentNone \<Rightarrow>
          (let t = or_empty None in
           if py_strip t \<noteq> [] then messages_loop rest (text_parts @ [t])
           else messages_loop rest text_parts))"

record prompt_usage =
  est_text_tokens :: int
  est_image_tokens :: int
  est_prompt_tokens :: int

definition estimate_prompt_tokens :: "message list option \<Rightarrow> prompt_usage" where
  "estimate_prompt_tokens messages =
     (let text_parts = messages_loop (case messages of None \<Rightarrow> [] | Some ms \<Rightarrow> ms) [];
          image_tokens = 0;
          text_tokens = count_tokens (Some (py_join (lit ''\<newline>'') text_parts))
      in \<lparr>est_text_tokens = text_tokens,
          est_image_tokens = image_tokens,
          est_prompt_tokens = text_tokens + image_tokens\<rparr>)"

subsection \<open>\<open>build_chat_usage\<close>\<close>

record prompt_details =
  pd_cached_tokens :: int
  pd_text_tokens :: int
  pd_audio_tokens :: int
  pd_image_tokens :: int

record completion_details =
  cd_text_tokens :: int
  cd_audio_tokens :: int
  cd_reasoning_tokens :: int

record raw_usage =
  raw_reasoning_tokens :: int
  raw_cached_tokens :: int
  raw_input_tokens :: int
  raw_output_tokens :: int

record chat_usage =
  prompt_tokens :: int
  completion_tokens :: int
  total_tokens :: int
  prompt_tokens_details :: prompt_details
  completion_tokens_details :: completion_details
  raw :: raw_usage

definition build_chat_usage :: "message list option \<Rightarrow> pystr option \<Rightarrow> chat_usage" where
  "build_chat_usage messages completion_text =
     (let prompt = estimate_prompt_tokens messages;
          (reasoning_text, output_text) = split_think (Some (or_empty completion_text));
          completion_text_tokens = count_tokens (Some output_text);
          reasoning_tokens = count_tokens (Some reasoning_text);
          output_tokens = completion_text_tokens + reasoning_tokens;
          input_tokens = est_prompt_tokens prompt;
          total_tokens = input_tokens + output_tokens
      in \<lparr>prompt_tokens = input_tokens,
          completion_tokens = output_tokens,
          total_tokens = total_tokens,
          prompt_tokens_details =
            \<lparr>pd_cached_tokens = 0,
             pd_text_tokens = est_text_tokens prompt,
             pd_audio_tokens = 0,
             pd_image_tokens = est_image_tokens prompt\<rparr>,
          completion_tokens_details =
            \<lparr>cd_text_tokens = completion_text_tokens,
             cd_audio_tokens = 0,
             cd_reasoning_tokens = reasoning_tokens\<rparr>,
          raw =
            \<lparr>raw_reasoning_tokens = reasoning_tokens,
             raw_cached_tokens = 0,
             raw_input_tokens = input_tokens,
             raw_output_tokens = output_tokens\<rparr>\<rparr>)"

subsection \<open>The prompt extractor as specified\<close>

text \<open>
  The prompt extractor in the words of its specification, to be compared with the loops
  above: a fragment is non-blank when it is non-empty after trimming; a structured content
  contributes the \<open>text\<close> of every part tagged \<open>type == "text"\<close>, any other content is
  taken as one plain string (empty when absent); blank fragments are dropped.
\<close>

definition nonblank :: "pystr \<Rightarrow> bool" where
  "nonblank t \<longleftrightarrow> py_strip t \<noteq> []"

fun part_texts :: "item \<Rightarrow> pystr list" where
  "part_texts NotDict = []"
| "part_texts (Dict d) =
     (if item_get d (lit ''type'') = Some (lit ''text'')
      then [or_empty (item_get d (lit ''text''))] else [])"

definition fragments :: "message \<Rightarrow> pystr list" where
  "fragments msg =
     filter nonblank
       (case msg_get msg (lit ''content'') of
          ContentList items \<Rightarrow> concat (map part_texts items)
        | ContentStr s \<Rightarrow> [s]
        | ContentNone \<Rightarrow> [[]])"

subsection \<open>\<open>build_image_usage\<close>\<close>

text \<open>
  The values a caller may pass as \<open>success_count\<close>: \<open>None\<close>, a \<open>bool\<close>, an \<open>int\<close> or a
  \<open>str\<close>.  \<open>py_truthy\<close> is Python's truth value, \<open>x or 1\<close> keeps a truthy \<open>x\<close> and replaces
  any other by \<open>1\<close>.  Floats and containers are not part of this model.
\<close>

datatype pyarg = ANone | ABool bool | AInt int | AStr pystr

datatype error = TypeError | ValueError

fun py_truthy :: "pyarg \<Rightarrow> bool" where
  "py_truthy ANone = False"
| "py_truthy (ABool b) = b"
| "py_truthy (AInt i) = (i \<noteq> 0)"
| "py_truthy (AStr s) = (s \<noteq> [])"

definition or_one :: "pyarg \<Rightarrow> pyarg" where
  "or_one x = (if py_truthy x then x else AInt 1)"

text \<open>
  The built-in \<open>int(x)\<close>: an \<open>int\<close> is returned as it is, a \<open>bool\<close> becomes 0 or 1, \<open>None\<close>
  raises \<open>TypeError\<close>, and a string is parsed, raising \<open>ValueError\<close> when it is not an
  integer literal.  The parser for strings belongs to the Python runtime (it knows the
  digits of every script); it is the parameter \<open>int_of_text\<close>, with \<open>None\<close> for a string it
  rejects, so that what is proved holds for every runtime.
\<close>

fun py_int :: "(pystr \<Rightarrow> int option) \<Rightarrow> pyarg \<Rightarrow> error + int" where
  "py_int int_of_text ANone = Inl TypeError"
| "py_int int_of_text (ABool b) = Inr (if b then 1 else 0)"
| "py_int int_of_text (AInt i) = Inr i"
| "py_int int_of_text (AStr s) =
     (case int_of_text s of None \<Rightarrow> Inl ValueError | Some i \<Rightarrow> Inr i)"

text \<open>
  A concrete parser for the examples: the decimal integer literals in ASCII that \<open>int\<close>
  accepts (optional sign, digits with single underscores between them, surrounded by
  ASCII whitespace).
\<close>

definition c_isspace :: "nat \<Rightarrow> bool" where
  "c_isspace c \<longleftrightarrow> c = 0x20 \<or> (0x09 \<le> c \<and> c \<le> 0x0D)"

fun digits_value :: "pystr \<Rightarrow> bool \<Rightarrow> int \<Rightarrow> int option" where
  "digits_value [] after_digit acc = (if after_digit then Some acc else None)"
| "digits_value (c # cs) after_digit acc =
     (if 0x30 \<le> c \<and> c \<le> 0x39 then digits_value cs True (acc * 10 + int (c - 0x30))
      else if c = 0x5F \<and> after_digit then digits_value cs False acc
      else None)"

definition ascii_int_literal :: "pystr \<Rightarrow> int option" where
  "ascii_int_literal s =
     (case rev (dropWhile c_isspace (rev (dropWhile c_isspace s))) of
        [] \<Rightarrow> None
      | c # cs \<Rightarrow>
          if c = 0x2D then map_option uminus (digits_value cs False 0)
          else if c = 0x2B then digits_value cs False 0
          else digits_value (c # cs) False 0)"

record image_details =
  idt_text_tokens :: int
  idt_image_tokens :: int

record image_usage =
  img_total_tokens :: int
  img_input_tokens :: int
  img_output_tokens :: int
  img_input_tokens_details :: image_details
  img_raw :: raw_usage

text \<open>
  \<open>build_image_usage(prompt, success_count=1)\<close>.  The prompt is a \<open>str\<close> or \<open>None\<close>, and
  \<open>str(prompt or "")\<close> is then the prompt itself or the empty string.  A call that leaves
  \<open>success_count\<close> out is the call with \<open>AInt 1\<close>.  The only statement that can raise is
  \<open>int(success_count or 1)\<close>.
\<close>

definition build_image_usage ::
  "(pystr \<Rightarrow> int option) \<Rightarrow> pystr option \<Rightarrow> pyarg \<Rightarrow> error + image_usage" where
  "build_image_usage int_of_text prompt success_count =
     (let text_tokens = count_tokens (Some (or_empty prompt)) in
      case py_int int_of_text (or_one success_count) of
        Inl e \<Rightarrow> Inl e
      | Inr n \<Rightarrow>
          (let success = max 1 n;
               total_tokens = text_tokens * success
           in Inr \<lparr>img_total_tokens = total_tokens,
                   img_input_tokens = total_tokens,
                   img_output_tokens = 0,
                   img_input_tokens_details =
                     \<lparr>idt_text_tokens = text_tokens, idt_image_tokens = 0\<rparr>,
                   img_raw =
                     \<lparr>raw_reasoning_tokens = 0,
                      raw_cached_tokens = 0,
                      raw_input_tokens = total_tokens,
                      raw_output_tokens = 0\<rparr>\<rparr>))"

section \<open>Token inventory query (app/api/v1/admin.py, pagination step)\<close>

text \<open>
  Modelled from the spec: the module \<open>app.api.v1.admin\<close> with \<open>get_tokens_api\<close> is not
  among the sources (only its test is), so the pagination step of the inventory query
  follows section 4.5, step 7, and section 6 of the specification.  The argument
  \<open>filtered\<close> is the sequence left by the filters (steps 1 to 5); \<open>total\<close> is its length
  (step 6).  \<open>per_page\<close> is a positive integer or the sentinel \<open>"all"\<close>; \<open>None\<close> stands for
  an argument left out, with the defaults \<open>page = 1\<close> and \<open>per_page = 30\<close>.  With a number:
  \<open>page\<close> is clamped to at least 1, \<open>pages = ceil(total / per_page)\<close> with a floor of 1, and
  the items are the slice \<open>[(page - 1) * per_page, page * per_page)\<close>.  With \<open>"all"\<close>: no
  slicing and \<open>pages = 1\<close>.  The specification says nothing about a numeric \<open>per_page\<close>
  below 1.
\<close>

datatype per_page_value = PerPage int | All

record 'a query_result =
  qr_items :: "'a list"
  qr_total :: int
  qr_page :: int
  qr_per_page :: per_page_value
  qr_pages :: int

definition query_token_inventory ::
  "'a list \<Rightarrow> int option \<Rightarrow> per_page_value option \<Rightarrow> 'a query_result" where
  "query_token_inventory filtered page per_page =
     (let total = int (length filtered);
          page = (case page of None \<Rightarrow> 1 | Some p \<Rightarrow> p);
          per_page = (case per_page of None \<Rightarrow> PerPage 30 | Some pp \<Rightarrow> pp)
      in case per_page of
           All \<Rightarrow>
             \<lparr>qr_items = filtered, qr_total = total, qr_page = page,
              qr_per_page = All, qr_pages = 1\<rparr>
         | PerPage n \<Rightarrow>
             (let page = max 1 page;
                  pages = max 1 \<lceil>real_of_int total / real_of_int n\<rceil>
              in \<lparr>qr_items = py_slice filtered (nat ((page - 1) * n)) (nat (page * n)),
                  qr_total = total, qr_page = page,
                  qr_per_page = PerPage n, qr_pages = pages\<rparr>))"

section \<open>Properties of the tokenizer heuristic\<close>

lemma count_loop_eq:
  "count_loop s a n =
     (a + int (length (filter (\<lambda>c. c \<le> 0x7F) s)),
      n + int (length (filter (\<lambda>c. \<not> c \<le> 0x7F) s)))"
  by (induction s arbitrary: a n) simp_all

lemma ceil_quarter: "(int k + 3) div 4 = \<lceil>real k / 4\<rceil>"
  by linarith

lemma count_tokens_Some:
  "count_tokens (Some s) =
     (int (length (filter (\<lambda>c. c \<le> 0x7F) s)) + 3) div 4
       + int (length (filter (\<lambda>c. \<not> c \<le> 0x7F) s))"
  by (simp add: count_tokens_def count_loop_eq)

text \<open>
  Claim C1.  For every string \<open>s\<close>, \<open>_count_tokens(s)\<close> is \<open>ceil(a / 4) + n\<close>, where \<open>a\<close> is the
  number of characters of \<open>s\<close> with code point at most \<open>0x7F\<close> and \<open>n\<close> the number of
  characters above \<open>0x7F\<close>; the empty string and \<open>None\<close> give 0.
\<close>

theorem count_tokens_formula:
  "count_tokens (Some s) =
     \<lceil>real (length (filter (\<lambda>c. c \<le> 0x7F) s)) / 4\<rceil>
       + int (length (filter (\<lambda>c. c > 0x7F) s))
   \<and> count_tokens (Some []) = 0
   \<and> count_tokens None = 0"
proof -
  have gt: "(\<lambda>c::nat. c > 0x7F) = (\<lambda>c. \<not> c \<le> 0x7F)"
    by (simp add: fun_eq_iff not_le)
  have "count_tokens (Some s) =
     \<lceil>real (length (filter (\<lambda>c. c \<le> 0x7F) s)) / 4\<rceil>
       + int (length (filter (\<lambda>c. c > 0x7F) s))"
    unfolding gt count_tokens_Some ceil_quarter ..
  moreover have "count_tokens (Some []) = 0" "count_tokens None = 0"
    by (simp_all add: count_tokens_def)
  ultimately show ?thesis by simp
qed

section \<open>Properties of the reasoning-segment splitter\<close>

lemma prefix_take_iff: "prefix xs ys \<longleftrightarrow> take (length xs) ys = xs"
  by (metis append_eq_conv_conj prefix_def take_is_prefix)

lemma find_in_None_iff: "find_in sub ys i = None \<longleftrightarrow> \<not> sublist sub ys"
  by (induction ys arbitrary: i) (auto simp: sublist_Cons_right prefix_take_iff)

lemma find_in_first:
  "(\<And>j. j < length v \<Longrightarrow> take (length sub) (drop j (v @ sub @ w)) \<noteq> sub) \<Longrightarrow>
     find_in sub (v @ sub @ w) i = Some (i + length v)"
proof (induction v arbitrary: i)
  case Nil
  have "take (length sub) (sub @ w) = sub" by simp
  then show ?case by (cases "sub @ w") auto
next
  case (Cons a v)
  from Cons.prems[of 0] have "take (length sub) (a # v @ sub @ w) \<noteq> sub" by simp
  moreover have "find_in sub (v @ sub @ w) (Suc i) = Some (Suc i + length v)"
  proof (rule Cons.IH)
    fix j assume "j < length v"
    with Cons.prems[of "Suc j"] show "take (length sub) (drop j (v @ sub @ w)) \<noteq> sub" by simp
  qed
  ultimately show ?case by simp
qed

lemma no_early_occurrence:
  assumes ne: "sub \<noteq> []" and hd: "hd sub \<notin> set (tl sub)"
    and nsub: "\<not> sublist sub v" and j: "j < length v"
  shows "take (length sub) (drop j (v @ sub @ w)) \<noteq> sub"
proof
  assume eq: "take (length sub) (drop j (v @ sub @ w)) = sub"
  show False
  proof (cases "j + length sub \<le> length v")
    case True
    then have "take (length sub) (drop j (v @ sub @ w)) = take (length sub) (drop j v)"
      by simp
    with eq have "sub = take (length sub) (drop j v)" by simp
    moreover have "sublist (take (length sub) (drop j v)) v"
      by (meson sublist_take sublist_drop sublist_order.order_trans)
    ultimately show False using nsub by simp
  next
    case False
    define m where "m = length v - j"
    from False j have m: "0 < m" "m < length sub" "j + m = length v"
      by (simp_all add: m_def)
    have "sub ! m = take (length sub) (drop j (v @ sub @ w)) ! m" using eq by simp
    also have "\<dots> = drop j (v @ sub @ w) ! m" using m(2) by (rule nth_take)
    also have "\<dots> = (v @ sub @ w) ! (j + m)" using j by (intro nth_drop) simp
    also have "\<dots> = sub ! 0" using m ne by (simp add: nth_append)
    also have "\<dots> = hd sub" using ne by (simp add: hd_conv_nth)
    finally have "sub ! m = hd sub" .
    moreover have "sub ! m \<in> set (tl sub)"
    proof -
      from m ne have "sub ! m = tl sub ! (m - 1)" by (cases sub) (auto simp: nth_Cons')
      moreover from m have "m - 1 < length (tl sub)" by simp
      ultimately show ?thesis by (metis nth_mem)
    qed
    ultimately show False using hd by simp
  qed
qed

lemma py_find_first:
  assumes "sub \<noteq> []" "hd sub \<notin> set (tl sub)" "\<not> sublist sub v"
  shows "py_find (pre @ v @ sub @ w) sub (length pre) = Some (length pre + length v)"
  using find_in_first[of v sub w "length pre"] no_early_occurrence[OF assms]
  by (simp add: py_find_def)

lemma py_find_none:
  "\<not> sublist sub v \<Longrightarrow> py_find (pre @ v) sub (length pre) = None"
  by (simp add: py_find_def find_in_None_iff)

lemma think_open_shape: "think_open \<noteq> []" "hd think_open \<notin> set (tl think_open)"
  by (simp_all add: think_open_def lit_def)

lemma think_close_shape: "think_close \<noteq> []" "hd think_close \<notin> set (tl think_close)"
  by (simp_all add: think_close_def lit_def)

lemma split_loop_step:
  assumes v: "\<not> sublist think_open v" and b: "\<not> sublist think_close b"
  shows "split_loop parts (pre @ v @ think_open @ b @ think_close @ rest) (length pre) =
         split_loop (parts @ [b]) (pre @ v @ rest) (length pre + length v)"
proof -
  let ?out = "pre @ v @ think_open @ b @ think_close @ rest"
  have s: "py_find ?out think_open (length pre) = Some (length pre + length v)"
    by (rule py_find_first[OF think_open_shape v])
  have "py_find ((pre @ v @ think_open) @ b @ think_close @ rest) think_close
          (length (pre @ v @ think_open)) = Some (length (pre @ v @ think_open) + length b)"
    by (rule py_find_first[OF think_close_shape b])
  then have e: "py_find ?out think_close (length pre + length v + 7) =
      Some (length pre + length v + 7 + length b)"
    by (simp add: add.assoc)
  have sl: "py_slice ?out (length pre + length v + 7) (length pre + length v + 7 + length b) = b"
    by (simp add: py_slice_def)
  have tk: "take (length pre + length v) ?out = pre @ v" by simp
  have dr: "drop (length pre + length v + 7 + length b + 8) ?out = rest" by simp
  show ?thesis
    by (subst split_loop.simps) (simp only: s e sl tk dr option.case append_assoc)
qed

lemma split_loop_stop:
  "\<not> sublist think_open v \<Longrightarrow> split_loop parts (pre @ v) (length pre) = (parts, pre @ v)"
  by (subst split_loop.simps) (simp add: py_find_none)

lemma split_loop_unmatched:
  assumes v: "\<not> sublist think_open v" and t: "\<not> sublist think_close t"
  shows "split_loop parts (pre @ v @ think_open @ t) (length pre) =
         (parts, pre @ v @ think_open @ t)"
proof -
  let ?out = "pre @ v @ think_open @ t"
  have s: "py_find ?out think_open (length pre) = Some (length pre + length v)"
    using py_find_first[OF think_open_shape v, of pre t] by simp
  have "py_find ((pre @ v @ think_open) @ t) think_close (length (pre @ v @ think_open)) = None"
    by (rule py_find_none[OF t])
  then have e: "py_find ?out think_close (length pre + length v + 7) = None"
    by (simp add: add.assoc)
  show ?thesis
    by (subst split_loop.simps) (simp only: s e option.case)
qed

lemma split_loop_assemble:
  assumes stops: "\<And>parts pre v. \<not> sublist think_open v \<Longrightarrow>
      split_loop parts (pre @ v @ tail) (length pre) = (parts, pre @ v @ tail)"
  shows "well_formed v0 spans \<Longrightarrow>
     split_loop parts (pre @ assemble v0 spans @ tail) (length pre) =
       (parts @ map fst spans, pre @ v0 @ concat (map snd spans) @ tail)"
proof (induction spans arbitrary: parts pre v0)
  case Nil
  then show ?case using stops[of v0 parts pre] by (simp add: assemble_def well_formed_def)
next
  case (Cons sp spans)
  obtain b v where sp: "sp = (b, v)" by (cases sp)
  from Cons.prems sp have v0: "\<not> sublist think_open v0" and b: "\<not> sublist think_close b"
    and wf: "well_formed v spans"
    by (simp_all add: well_formed_def)
  have "pre @ assemble v0 (sp # spans) @ tail =
        pre @ v0 @ think_open @ b @ think_close @ (assemble v spans @ tail)"
    by (simp add: assemble_def sp)
  then have "split_loop parts (pre @ assemble v0 (sp # spans) @ tail) (length pre) =
        split_loop (parts @ [b]) (pre @ v0 @ assemble v spans @ tail) (length pre + length v0)"
    using split_loop_step[OF v0 b] by simp
  also have "\<dots> = split_loop (parts @ [b]) ((pre @ v0) @ assemble v spans @ tail) (length (pre @ v0))"
    by simp
  also have "\<dots> = ((parts @ [b]) @ map fst spans, (pre @ v0) @ v @ concat (map snd spans) @ tail)"
    by (rule Cons.IH[OF wf])
  finally show ?case by (simp add: sp)
qed


lemma assemble_Nil_iff: "assemble v0 spans = [] \<longleftrightarrow> v0 = [] \<and> spans = []"
  by (cases spans) (auto simp: assemble_def think_open_shape)

lemma split_think_assemble:
  assumes "well_formed v0 spans"
  shows "split_think (Some (assemble v0 spans)) =
           (py_join (lit ''\<newline>'') (map fst spans), v0 @ concat (map snd spans))"
proof (cases "assemble v0 spans = []")
  case True
  then show ?thesis by (simp add: split_think_def assemble_Nil_iff)
next
  case False
  have "split_loop [] ([] @ assemble v0 spans @ []) (length ([] :: pystr)) =
          ([] @ map fst spans, [] @ v0 @ concat (map snd spans) @ [])"
    using assms
  proof (rule split_loop_assemble[rotated])
    fix parts pre v
    assume "\<not> sublist think_open v"
    then show "split_loop parts (pre @ v @ []) (length pre) = (parts, pre @ v @ [])"
      using split_loop_stop[of v parts pre] by simp
  qed
  then have "split_loop [] (assemble v0 spans) 0 = (map fst spans, v0 @ concat (map snd spans))"
    by simp
  with False show ?thesis by (simp add: split_think_def)
qed

lemma split_think_unmatched:
  assumes "well_formed v0 spans" and t: "\<not> sublist think_close t"
  shows "split_think (Some (assemble v0 spans @ think_open @ t)) =
           (py_join (lit ''\<newline>'') (map fst spans),
            v0 @ concat (map snd spans) @ think_open @ t)"
proof -
  have ne: "assemble v0 spans @ think_open @ t \<noteq> []"
    by (simp add: think_open_shape)
  have "split_loop [] ([] @ assemble v0 spans @ think_open @ t) (length ([] :: pystr)) =
          ([] @ map fst spans, [] @ v0 @ concat (map snd spans) @ think_open @ t)"
    using assms(1)
  proof (rule split_loop_assemble[rotated])
    fix parts pre v
    assume "\<not> sublist think_open v"
    then show "split_loop parts (pre @ v @ think_open @ t) (length pre) =
                 (parts, pre @ v @ think_open @ t)"
      using t by (rule split_loop_unmatched)
  qed
  then have "split_loop [] (assemble v0 spans @ think_open @ t) 0 =
               (map fst spans, v0 @ concat (map snd spans) @ think_open @ t)"
    by simp
  then show ?thesis
    by (simp only: split_think_def option.case ne if_False prod.case)
qed

lemma length_assemble:
  "length (assemble v0 spans) =
     length v0 + sum_list (map (length \<circ> fst) spans) + sum_list (map (length \<circ> snd) spans)
       + 15 * length spans"
  by (induction spans arbitrary: v0) (auto simp: assemble_def)

text \<open>
  Claim C5.  \<open>_split_think\<close> processes well-formed \<open><think>\<dots></think>\<close> pairs left to
  right: the enclosed texts are appended to the reasoning result (joined by newline) and
  every delimited span is removed from the output; with no further opening marker it stops
  (third conjunct); an opening marker with no closing marker after it stops the loop too,
  and the remainder, the unmatched marker included, stays in the output verbatim (fourth
  conjunct).  One iteration of the loop scanning from offset \<open>len(pre)\<close> removes the next
  span and resumes at the offset where that span started (fifth conjunct).  \<open>None\<close> and the
  empty string give \<open>("", "")\<close>.
\<close>

theorem split_think_spec:
  "split_think None = ([], []) \<and> split_think (Some []) = ([], [])
   \<and> (well_formed v0 spans \<longrightarrow>
        split_think (Some (assemble v0 spans)) =
          (py_join (lit ''\<newline>'') (map fst spans), v0 @ concat (map snd spans)))
   \<and> (well_formed v0 spans \<and> \<not> sublist think_close t \<longrightarrow>
        split_think (Some (assemble v0 spans @ think_open @ t)) =
          (py_join (lit ''\<newline>'') (map fst spans),
           v0 @ concat (map snd spans) @ think_open @ t))
   \<and> (\<not> sublist think_open v \<and> \<not> sublist think_close b \<longrightarrow>
        split_loop parts (pre @ v @ think_open @ b @ think_close @ rest) (length pre) =
          split_loop (parts @ [b]) (pre @ v @ rest) (length (pre @ v)))"
proof -
  have "split_think None = ([], [])" "split_think (Some []) = ([], [])"
    by (simp_all add: split_think_def)
  moreover have "\<not> sublist think_open v \<and> \<not> sublist think_close b \<longrightarrow>
        split_loop parts (pre @ v @ think_open @ b @ think_close @ rest) (length pre) =
          split_loop (parts @ [b]) (pre @ v @ rest) (length (pre @ v))"
    using split_loop_step[of v b parts pre rest] by simp
  ultimately show ?thesis
    using split_think_assemble[of v0 spans] split_think_unmatched[of v0 spans t] by blast
qed

lemma sublist_eval:
  "sublist (x # xs) (y # ys) \<longleftrightarrow> prefix (x # xs) (y # ys) \<or> sublist (x # xs) ys"
  by (rule sublist_code)

theorem split_think_spec_witness:
  "split_think (Some (lit ''a<think>b</think><think>c</think>d'')) = (lit ''b\<newline>c'', lit ''ad'')
   \<and> split_think (Some (lit ''a<think>b</think><think>c</think>d<think>zz'')) =
        (lit ''b\<newline>c'', lit ''ad<think>zz'')
   \<and> split_loop [] (lit ''p<thi<think>y</think>nk>r'') (length (lit ''p'')) =
        split_loop [lit ''y''] (lit ''p<think>r'') (length (lit ''p<thi''))"
proof -
  have wf: "well_formed (lit ''a'') [(lit ''b'', []), (lit ''c'', lit ''d'')]"
    by (simp add: well_formed_def lit_def think_open_def think_close_def sublist_eval)
  have t: "\<not> sublist think_close (lit ''zz'')"
    by (simp add: lit_def think_close_def sublist_eval)
  have v: "\<not> sublist think_open (lit ''<thi'')"
    by (simp add: lit_def think_open_def sublist_eval)
  have b: "\<not> sublist think_close (lit ''y'')"
    by (simp add: lit_def think_close_def sublist_eval)
  show ?thesis
    using split_think_spec[of "lit ''a''" "[(lit ''b'', []), (lit ''c'', lit ''d'')]" "lit ''zz''"
        "lit ''<thi''" "lit ''y''" "[]" "lit ''p''" "lit ''nk>r''"] wf t v b
    by (simp add: assemble_def lit_def think_open_def think_close_def)
qed

text \<open>
  Claim C6.  For a text made of \<open>k\<close> well-formed, non-overlapping reasoning spans, the length
  of the visible text returned by \<open>_split_think\<close>, plus the lengths of the span bodies, plus
  the length of the \<open>k\<close> pairs of markers, is the length of the text; the bodies are the
  segments of the reasoning text returned.  Adjacent spans are allowed here, so the
  non-adjacent texts of the claim are covered.
\<close>

theorem split_think_length_roundtrip:
  assumes "well_formed v0 spans"
  shows "length (snd (split_think (Some (assemble v0 spans))))
           + sum_list (map (length \<circ> fst) spans)
           + (length think_open + length think_close) * length spans
         = length (assemble v0 spans)
       \<and> fst (split_think (Some (assemble v0 spans))) = py_join (lit ''\<newline>'') (map fst spans)"
  using split_think_assemble[OF assms] by (simp add: length_assemble length_concat comp_def)

theorem split_think_length_roundtrip_witness:
  "length (snd (split_think (Some (lit ''ab<think>cde</think>f<think></think>gh''))))
     + (3 + 0) + (7 + 8) * 2 = length (lit ''ab<think>cde</think>f<think></think>gh'')"
proof -
  have wf: "well_formed (lit ''ab'') [(lit ''cde'', lit ''f''), ([], lit ''gh'')]"
    by (simp add: well_formed_def lit_def think_open_def think_close_def sublist_eval)
  show ?thesis
    using split_think_length_roundtrip[OF wf]
    by (simp add: assemble_def lit_def think_open_def think_close_def)
qed

section \<open>Properties of the prompt extractor and the chat usage report\<close>

lemma or_empty_Some [simp]: "or_empty (Some s) = s"
  by (simp add: or_empty_def)

lemma or_empty_None [simp]: "or_empty None = []"
  by (simp add: or_empty_def)

lemma py_strip_Nil [simp]: "py_strip [] = []"
  by (simp add: py_strip_def)

lemma nonblank_iff: "nonblank t \<longleftrightarrow> \<not> list_all is_space t"
proof (cases "dropWhile is_space t")
  case Nil
  then have "list_all is_space t"
    by (metis dropWhile_eq_Nil_conv list_all_iff)
  then show ?thesis unfolding nonblank_def py_strip_def Nil by simp
next
  case (Cons x xs)
  then have x: "\<not> is_space x" using hd_dropWhile[of is_space t] by simp
  from Cons have nall: "\<not> list_all is_space t"
    by (metis dropWhile_eq_Nil_conv list.distinct(1) list_all_iff)
  have "dropWhile is_space (rev (x # xs)) \<noteq> []"
    using x by (simp add: dropWhile_eq_Nil_conv)
  with Cons nall show ?thesis by (simp add: nonblank_def py_strip_def)
qed

lemma nonblank_nonempty: "nonblank t \<Longrightarrow> t \<noteq> []"
  by (auto simp: nonblank_def)

lemma items_loop_eq:
  "items_loop items text_parts =
     text_parts @ filter nonblank (concat (map part_texts items))"
  by (induction items text_parts rule: items_loop.induct) (simp_all add: Let_def nonblank_def)

lemma messages_loop_eq:
  "messages_loop ms text_parts = text_parts @ concat (map fragments ms)"
proof (induction ms arbitrary: text_parts)
  case Nil
  then show ?case by simp
next
  case (Cons msg ms)
  show ?case
    by (cases "msg_get msg (lit ''content'')")
       (simp_all add: Cons.IH fragments_def items_loop_eq nonblank_def)
qed

lemma estimate_prompt_tokens_eq:
  "estimate_prompt_tokens messages =
     \<lparr>est_text_tokens =
        count_tokens (Some (py_join (lit ''\<newline>'')
          (concat (map fragments (case messages of None \<Rightarrow> [] | Some ms \<Rightarrow> ms))))),
      est_image_tokens = 0,
      est_prompt_tokens =
        count_tokens (Some (py_join (lit ''\<newline>'')
          (concat (map fragments (case messages of None \<Rightarrow> [] | Some ms \<Rightarrow> ms)))))\<rparr>"
  by (simp add: estimate_prompt_tokens_def messages_loop_eq Let_def)

text \<open>
  Claim C7.  \<open>estimate_prompt_tokens\<close> collects the non-blank \<open>text\<close> parts of structured
  contents and the non-blank plain contents (\<open>fragments\<close>), joins all of them with newlines
  and runs the tokenizer once over the joined string; \<open>image_tokens\<close> is always 0 and
  \<open>prompt_tokens = text_tokens + image_tokens\<close>.  The last two conjuncts show on two
  one-character messages that the count is taken over the joined string (1 token), not
  per fragment (1 + 1 tokens).
\<close>

theorem estimate_prompt_tokens_spec:
  "estimate_prompt_tokens (Some messages) =
     \<lparr>est_text_tokens =
        count_tokens (Some (py_join (lit ''\<newline>'') (concat (map fragments messages)))),
      est_image_tokens = 0,
      est_prompt_tokens =
        count_tokens (Some (py_join (lit ''\<newline>'') (concat (map fragments messages))))\<rparr>
   \<and> est_image_tokens (estimate_prompt_tokens m) = 0
   \<and> est_prompt_tokens (estimate_prompt_tokens m) =
       est_text_tokens (estimate_prompt_tokens m) + est_image_tokens (estimate_prompt_tokens m)
   \<and> est_text_tokens (estimate_prompt_tokens
        (Some [[(lit ''content'', ContentStr (lit ''a''))],
               [(lit ''content'', ContentStr (lit ''b''))]])) = 1
   \<and> count_tokens (Some (lit ''a'')) + count_tokens (Some (lit ''b'')) = 2"
proof -
  have a: "nonblank (lit ''a'')" and b: "nonblank (lit ''b'')"
    by (simp_all add: nonblank_iff lit_def is_space_def)
  have "est_text_tokens (estimate_prompt_tokens
        (Some [[(lit ''content'', ContentStr (lit ''a''))],
               [(lit ''content'', ContentStr (lit ''b''))]])) = 1"
    unfolding estimate_prompt_tokens_eq
    by (simp add: fragments_def msg_get_def a b) (simp add: lit_def count_tokens_def)
  moreover have "count_tokens (Some (lit ''a'')) + count_tokens (Some (lit ''b'')) = 2"
    by (simp add: lit_def count_tokens_def)
  ultimately show ?thesis
    by (simp add: estimate_prompt_tokens_eq)
qed

text \<open>
  Claim C3.  For all messages and every completion text, the report of \<open>build_chat_usage\<close>
  has \<open>completion_tokens = text_tokens + reasoning_tokens\<close> (of its
  \<open>completion_tokens_details\<close>) and \<open>total_tokens = prompt_tokens + completion_tokens\<close>.
\<close>

theorem build_chat_usage_invariant:
  "completion_tokens (build_chat_usage messages completion_text) =
     cd_text_tokens (completion_tokens_details (build_chat_usage messages completion_text))
     + cd_reasoning_tokens (completion_tokens_details (build_chat_usage messages completion_text))
   \<and> total_tokens (build_chat_usage messages completion_text) =
     prompt_tokens (build_chat_usage messages completion_text)
     + completion_tokens (build_chat_usage messages completion_text)"
  by (simp add: build_chat_usage_def Let_def split: prod.splits)

lemma count_tokens_nonneg: "0 \<le> count_tokens t"
proof (cases t)
  case None
  then show ?thesis by (simp add: count_tokens_def)
next
  case (Some s)
  show ?thesis unfolding Some count_tokens_Some by linarith
qed

lemma count_tokens_pos: "s \<noteq> [] \<Longrightarrow> 1 \<le> count_tokens (Some s)"
proof -
  assume "s \<noteq> []"
  then have "0 < length s" by simp
  moreover have "length (filter (\<lambda>c. c \<le> 0x7F) s) + length (filter (\<lambda>c. \<not> c \<le> 0x7F) s) = length s"
    by (rule sum_length_filter_compl)
  ultimately show ?thesis
    unfolding count_tokens_Some by linarith
qed

lemma count_tokens_zero_iff: "count_tokens t = 0 \<longleftrightarrow> t = None \<or> t = Some []"
proof (cases t)
  case None
  then show ?thesis by (simp add: count_tokens_def)
next
  case (Some s)
  show ?thesis
  proof (cases "s = []")
    case True
    with Some show ?thesis by (simp add: count_tokens_def)
  next
    case False
    with count_tokens_pos[OF False] Some show ?thesis by simp
  qed
qed

lemma py_join_Nil_iff:
  "[] \<notin> set parts \<Longrightarrow> py_join sep parts = [] \<longleftrightarrow> parts = []"
  by (induction sep parts rule: py_join.induct) auto

lemma fragments_nonempty: "[] \<notin> set (concat (map fragments ms))"
  by (auto simp: fragments_def dest: nonblank_nonempty)

text \<open>
  Claim C10, as amended.  \<open>_count_tokens(s)\<close> is 0 exactly for the empty string and \<open>None\<close>,
  and every non-empty string that reaches the tokenizer, whitespace included, costs at least
  one token.  Billing is another matter: the prompt is billed 0 exactly when no fragment
  survives trimming, and the completion exactly when both the visible and the reasoning
  text are empty.
\<close>

theorem count_tokens_zero_billing:
  "(count_tokens t = 0 \<longleftrightarrow> t = None \<or> t = Some [])
   \<and> (s \<noteq> [] \<longrightarrow> 1 \<le> count_tokens (Some s))
   \<and> (prompt_tokens (build_chat_usage (Some ms) c) = 0 \<longleftrightarrow> concat (map fragments ms) = [])
   \<and> (completion_tokens (build_chat_usage m c) = 0 \<longleftrightarrow>
        split_think (Some (or_empty c)) = ([], []))"
proof -
  have "prompt_tokens (build_chat_usage (Some ms) c) = 0 \<longleftrightarrow> concat (map fragments ms) = []"
    by (simp add: build_chat_usage_def Let_def estimate_prompt_tokens_eq count_tokens_zero_iff
        py_join_Nil_iff[OF fragments_nonempty] split: prod.splits)
  moreover have "completion_tokens (build_chat_usage m c) = 0 \<longleftrightarrow>
        split_think (Some (or_empty c)) = ([], [])"
  proof (cases "split_think (Some (or_empty c))")
    case (Pair r out)
    have "count_tokens (Some out) + count_tokens (Some r) = 0 \<longleftrightarrow>
          count_tokens (Some out) = 0 \<and> count_tokens (Some r) = 0"
      using count_tokens_nonneg[of "Some out"] count_tokens_nonneg[of "Some r"] by linarith
    with Pair show ?thesis
      by (auto simp: build_chat_usage_def Let_def count_tokens_zero_iff)
  qed
  ultimately show ?thesis
    using count_tokens_zero_iff[of t] count_tokens_pos[of s] by blast
qed

theorem count_tokens_zero_billing_witness:
  "lit ''  '' \<noteq> [] \<and> 1 \<le> count_tokens (Some (lit ''  ''))"
  using count_tokens_zero_billing[of None "lit ''  ''" "[]" None None]
  by (simp add: lit_def)

text \<open>
  The claim as stated (no non-empty prompt or completion is ever billed zero tokens) fails:
  the one-space prompt is dropped by \<open>if t.strip()\<close>, and the completion
  \<open><think></think>\<close> leaves neither visible nor reasoning text.
\<close>

theorem blank_prompt_billed_zero:
  "prompt_tokens (build_chat_usage (Some [[(lit ''content'', ContentStr (lit '' ''))]])
     (Some (lit ''<think></think>''))) = 0
   \<and> completion_tokens (build_chat_usage (Some [[(lit ''content'', ContentStr (lit '' ''))]])
     (Some (lit ''<think></think>''))) = 0"
proof -
  have "\<not> nonblank (lit '' '')"
    by (simp add: nonblank_iff lit_def is_space_def)
  then have p: "fragments [(lit ''content'', ContentStr (lit '' ''))] = []"
    by (simp add: fragments_def msg_get_def)
  have c: "split_think (Some (lit ''<think></think>'')) = ([], [])"
    by (simp add: split_think_def lit_def split_loop.simps think_open_def think_close_def
        py_find_def py_slice_def)
  show ?thesis
    by (simp add: build_chat_usage_def Let_def estimate_prompt_tokens_eq p c count_tokens_def)
qed

section \<open>Properties of the image usage report\<close>

lemma count_tokens_or_empty: "count_tokens (Some (or_empty p)) = count_tokens p"
  by (cases p) (simp_all add: count_tokens_def or_empty_def)

lemma py_int_or_one_cases:
  "py_int f (or_one n) =
     (case n of
        ANone \<Rightarrow> Inr 1
      | ABool b \<Rightarrow> Inr 1
      | AInt i \<Rightarrow> Inr (if i = 0 then 1 else i)
      | AStr s \<Rightarrow>
          if s = [] then Inr 1
          else (case f s of None \<Rightarrow> Inl ValueError | Some i \<Rightarrow> Inr i))"
  by (cases n) (simp_all add: or_one_def)

lemma build_image_usage_Inr:
  assumes "py_int f (or_one n) = Inr k"
  shows "\<exists>r. build_image_usage f p n = Inr r
            \<and> img_total_tokens r = count_tokens p * max 1 k \<and> img_output_tokens r = 0"
  using assms by (simp add: build_image_usage_def Let_def count_tokens_or_empty)

lemma build_image_usage_Inl:
  assumes "py_int f (or_one n) = Inl e"
  shows "build_image_usage f p n = Inl e"
  using assms by (simp add: build_image_usage_def Let_def)

lemma ascii_int_literal_abc: "ascii_int_literal (lit ''abc'') = None"
  by (simp add: ascii_int_literal_def lit_def c_isspace_def)

lemma ascii_int_literal_two: "ascii_int_literal (lit ''two'') = None"
  by (simp add: ascii_int_literal_def lit_def c_isspace_def)

lemma ascii_int_literal_3: "ascii_int_literal (lit ''3'') = Some 3"
  by (simp add: ascii_int_literal_def lit_def c_isspace_def)

text \<open>
  Claim C2, as amended.  \<open>build_image_usage\<close> returns a report, for every prompt, exactly
  when \<open>success_count\<close> is not a non-empty string that \<open>int\<close> rejects: \<open>None\<close>, a bool, an
  int (zero and negative included), the empty string and every string \<open>int\<close> accepts are
  coerced; a non-empty string that \<open>int\<close> rejects raises \<open>ValueError\<close>.
\<close>

theorem build_image_usage_raises:
  "((\<exists>r. build_image_usage f p n = Inr r)
      \<longleftrightarrow> \<not> (\<exists>s. n = AStr s \<and> s \<noteq> [] \<and> f s = None))
   \<and> ((\<exists>s. n = AStr s \<and> s \<noteq> [] \<and> f s = None)
        \<longrightarrow> build_image_usage f p n = Inl ValueError)"
proof (cases "\<exists>s. n = AStr s \<and> s \<noteq> [] \<and> f s = None")
  case True
  then have "py_int f (or_one n) = Inl ValueError"
    by (auto simp: py_int_or_one_cases)
  from build_image_usage_Inl[OF this] True show ?thesis by simp
next
  case False
  then have "\<exists>k. py_int f (or_one n) = Inr k"
    by (cases n) (auto simp: py_int_or_one_cases split: option.splits)
  then obtain k where "py_int f (or_one n) = Inr k" ..
  from build_image_usage_Inr[OF this] False show ?thesis by blast
qed

theorem build_image_usage_raises_witness:
  "(\<exists>r. build_image_usage ascii_int_literal (Some (lit ''a cat'')) (AInt (- 3)) = Inr r)
   \<and> build_image_usage ascii_int_literal None (AStr (lit ''two'')) = Inl ValueError"
  using build_image_usage_raises[of ascii_int_literal "Some (lit ''a cat'')" "AInt (- 3)"]
    build_image_usage_raises[of ascii_int_literal None "AStr (lit ''two'')"]
    ascii_int_literal_two
  by (simp add: lit_def)

text \<open>
  The claim as stated (never raises, non-numeric values included) fails at
  \<open>build_image_usage("a cat", "abc")\<close>: \<open>"abc" or 1\<close> is \<open>"abc"\<close>, and \<open>int("abc")\<close> raises.
\<close>

theorem build_image_usage_abc_raises:
  "build_image_usage ascii_int_literal (Some (lit ''a cat'')) (AStr (lit ''abc''))
     = Inl ValueError"
  by (simp add: build_image_usage_def or_one_def ascii_int_literal_abc)
     (simp add: lit_def)

text \<open>
  Claim C4, as amended.  For every prompt \<open>p\<close> and every integer count \<open>i\<close> (0 and negative
  included) the report has \<open>total_tokens = _count_tokens(p) * max(1, i)\<close>; \<open>None\<close>, a bool
  and the empty string count as 1; a string that \<open>int\<close> parses to \<open>k\<close> counts as
  \<open>max(1, k)\<close>; \<open>output_tokens\<close> is 0 in each of these reports, which are all the reports
  there are.
\<close>

theorem build_image_usage_total:
  "(\<exists>r. build_image_usage f p (AInt i) = Inr r
       \<and> img_total_tokens r = count_tokens p * max 1 i \<and> img_output_tokens r = 0)
   \<and> (\<exists>r. build_image_usage f p ANone = Inr r
       \<and> img_total_tokens r = count_tokens p \<and> img_output_tokens r = 0)
   \<and> (\<exists>r. build_image_usage f p (ABool b) = Inr r
       \<and> img_total_tokens r = count_tokens p \<and> img_output_tokens r = 0)
   \<and> (\<exists>r. build_image_usage f p (AStr []) = Inr r
       \<and> img_total_tokens r = count_tokens p \<and> img_output_tokens r = 0)
   \<and> (s \<noteq> [] \<and> f s = Some k \<longrightarrow>
        (\<exists>r. build_image_usage f p (AStr s) = Inr r
           \<and> img_total_tokens r = count_tokens p * max 1 k \<and> img_output_tokens r = 0))"
proof -
  have "py_int f (or_one (AInt i)) = Inr (if i = 0 then 1 else i)"
    by (simp add: py_int_or_one_cases)
  from build_image_usage_Inr[OF this, of p]
  have a: "\<exists>r. build_image_usage f p (AInt i) = Inr r
       \<and> img_total_tokens r = count_tokens p * max 1 i \<and> img_output_tokens r = 0"
    by (cases "i = 0") simp_all
  have one: "py_int f (or_one ANone) = Inr 1" "py_int f (or_one (ABool b)) = Inr 1"
    "py_int f (or_one (AStr [])) = Inr 1"
    by (simp_all add: py_int_or_one_cases)
  have b: "\<exists>r. build_image_usage f p ANone = Inr r
       \<and> img_total_tokens r = count_tokens p \<and> img_output_tokens r = 0"
    using build_image_usage_Inr[OF one(1), of p] by simp
  have c: "\<exists>r. build_image_usage f p (ABool b) = Inr r
       \<and> img_total_tokens r = count_tokens p \<and> img_output_tokens r = 0"
    using build_image_usage_Inr[OF one(2), of p] by simp
  have d: "\<exists>r. build_image_usage f p (AStr []) = Inr r
       \<and> img_total_tokens r = count_tokens p \<and> img_output_tokens r = 0"
    using build_image_usage_Inr[OF one(3), of p] by simp
  have e: "s \<noteq> [] \<and> f s = Some k \<longrightarrow>
        (\<exists>r. build_image_usage f p (AStr s) = Inr r
           \<and> img_total_tokens r = count_tokens p * max 1 k \<and> img_output_tokens r = 0)"
  proof
    assume "s \<noteq> [] \<and> f s = Some k"
    then have "py_int f (or_one (AStr s)) = Inr k"
      by (simp add: py_int_or_one_cases)
    from build_image_usage_Inr[OF this] show "\<exists>r. build_image_usage f p (AStr s) = Inr r
           \<and> img_total_tokens r = count_tokens p * max 1 k \<and> img_output_tokens r = 0" .
  qed
  from a b c d e show ?thesis by blast
qed

theorem build_image_usage_total_witness:
  "\<exists>r. build_image_usage ascii_int_literal (Some (lit ''a cat'')) (AStr (lit ''3'')) = Inr r
       \<and> img_total_tokens r = 6 \<and> img_output_tokens r = 0"
proof -
  have c: "count_tokens (Some (lit ''a cat'')) = 2"
    by (simp add: count_tokens_def lit_def)
  have ne: "lit ''3'' \<noteq> []" by (simp add: lit_def)
  show ?thesis
    using build_image_usage_total[of ascii_int_literal "Some (lit ''a cat'')" 0 True
        "lit ''3''" 3] ascii_int_literal_3 ne c
    by simp
qed

text \<open>
  The claim as stated (a non-numeric count clamps to 1) fails at
  \<open>build_image_usage("a cat", "two")\<close>: there is no report, \<open>int("two")\<close> raises.
\<close>

theorem build_image_usage_two_raises:
  "build_image_usage ascii_int_literal (Some (lit ''a cat'')) (AStr (lit ''two''))
     = Inl ValueError"
  by (simp add: build_image_usage_def or_one_def ascii_int_literal_two)
     (simp add: lit_def)

section \<open>Properties of the inventory pagination\<close>

lemma window_take_drop:
  assumes "0 < n" "1 \<le> p"
  shows "py_slice xs (nat ((p - 1) * n)) (nat (p * n)) = take (nat n) (drop (nat ((p - 1) * n)) xs)"
proof -
  have "0 \<le> (p - 1) * n" using assms by simp
  moreover have "p * n = (p - 1) * n + n" by (simp add: algebra_simps)
  ultimately have "nat (p * n) - nat ((p - 1) * n) = nat n"
    using assms by (simp add: nat_add_distrib)
  then show ?thesis by (simp add: py_slice_def)
qed

lemma beyond_last_empty:
  assumes n: "0 < n" and p: "max 1 \<lceil>real_of_int (int (length xs)) / real_of_int n\<rceil> < p"
  shows "take (nat n) (drop (nat ((p - 1) * n)) xs) = []"
proof -
  from p have c: "\<lceil>real_of_int (int (length xs)) / real_of_int n\<rceil> \<le> p - 1"
    by simp
  have "real_of_int (int (length xs)) / real_of_int n
          \<le> real_of_int \<lceil>real_of_int (int (length xs)) / real_of_int n\<rceil>"
    by (rule le_of_int_ceiling)
  also have "\<dots> \<le> real_of_int (p - 1)"
    using c by (simp only: of_int_le_iff)
  finally have "real_of_int (int (length xs)) / real_of_int n \<le> real_of_int (p - 1)" .
  then have "real_of_int (int (length xs)) \<le> real_of_int (p - 1) * real_of_int n"
    using n by (simp add: pos_divide_le_eq)
  then have "int (length xs) \<le> (p - 1) * n"
    by (metis of_int_le_iff of_int_mult)
  then have "length xs \<le> nat ((p - 1) * n)" by simp
  then show ?thesis by simp
qed

text \<open>
  Claim C8.  For every filtered inventory and every numeric (positive) \<open>per_page\<close>: an
  argument left out takes the default \<open>page = 1\<close>, \<open>per_page = 30\<close>; \<open>page\<close> is clamped to at
  least 1; \<open>pages = ceil(total / per_page)\<close> with a floor of 1; the items are the window
  \<open>[(page - 1) * per_page, page * per_page)\<close> of the filtered sequence; and a page beyond the
  last has no items while \<open>total\<close> and \<open>pages\<close> are what they are for page 1.
\<close>

theorem query_token_inventory_numeric:
  "query_token_inventory filtered None None =
     query_token_inventory filtered (Some 1) (Some (PerPage 30))
   \<and> query_token_inventory filtered None (Some pp) = query_token_inventory filtered (Some 1) (Some pp)
   \<and> query_token_inventory filtered (Some pg) None =
       query_token_inventory filtered (Some pg) (Some (PerPage 30))
   \<and> (0 < n \<longrightarrow>
        qr_page (query_token_inventory filtered (Some pg) (Some (PerPage n))) = max 1 pg
      \<and> qr_per_page (query_token_inventory filtered (Some pg) (Some (PerPage n))) = PerPage n
      \<and> qr_total (query_token_inventory filtered (Some pg) (Some (PerPage n)))
          = int (length filtered)
      \<and> qr_pages (query_token_inventory filtered (Some pg) (Some (PerPage n)))
          = max 1 \<lceil>real (length filtered) / real_of_int n\<rceil>
      \<and> qr_items (query_token_inventory filtered (Some pg) (Some (PerPage n)))
          = take (nat n) (drop (nat ((max 1 pg - 1) * n)) filtered))
   \<and> (0 < n \<and> qr_pages (query_token_inventory filtered (Some pg) (Some (PerPage n))) < pg \<longrightarrow>
        qr_items (query_token_inventory filtered (Some pg) (Some (PerPage n))) = []
      \<and> qr_total (query_token_inventory filtered (Some pg) (Some (PerPage n)))
          = qr_total (query_token_inventory filtered (Some 1) (Some (PerPage n)))
      \<and> qr_pages (query_token_inventory filtered (Some pg) (Some (PerPage n)))
          = qr_pages (query_token_inventory filtered (Some 1) (Some (PerPage n))))"
proof -
  have d: "query_token_inventory filtered None None =
     query_token_inventory filtered (Some 1) (Some (PerPage 30))"
    "query_token_inventory filtered None (Some pp) = query_token_inventory filtered (Some 1) (Some pp)"
    "query_token_inventory filtered (Some pg) None =
       query_token_inventory filtered (Some pg) (Some (PerPage 30))"
    by (simp_all add: query_token_inventory_def)
  have fields: "qr_page (query_token_inventory filtered (Some pg) (Some (PerPage n))) = max 1 pg"
    "qr_per_page (query_token_inventory filtered (Some pg) (Some (PerPage n))) = PerPage n"
    "qr_total (query_token_inventory filtered (Some pg) (Some (PerPage n))) = int (length filtered)"
    "qr_pages (query_token_inventory filtered (Some pg) (Some (PerPage n)))
          = max 1 \<lceil>real (length filtered) / real_of_int n\<rceil>"
    for pg
    by (simp_all add: query_token_inventory_def Let_def)
  have items: "qr_items (query_token_inventory filtered (Some pg) (Some (PerPage n)))
          = take (nat n) (drop (nat ((max 1 pg - 1) * n)) filtered)" if "0 < n"
    using window_take_drop[OF that, of "max 1 pg" filtered]
    by (simp add: query_token_inventory_def Let_def)
  have beyond: "qr_items (query_token_inventory filtered (Some pg) (Some (PerPage n))) = []"
    if "0 < n" "qr_pages (query_token_inventory filtered (Some pg) (Some (PerPage n))) < pg"
  proof -
    from that(2) have lt: "max 1 \<lceil>real_of_int (int (length filtered)) / real_of_int n\<rceil> < pg"
      by (simp add: fields)
    then have "max 1 pg = pg" by simp
    with beyond_last_empty[OF that(1) lt] items[OF that(1)] show ?thesis by simp
  qed
  show ?thesis
    using d fields items beyond by (simp add: fields)
qed

theorem query_token_inventory_numeric_witness:
  "qr_pages (query_token_inventory [10, 20, 30, 40, 50 :: nat] (Some 3) (Some (PerPage 2))) = 3
   \<and> qr_items (query_token_inventory [10, 20, 30, 40, 50 :: nat] (Some 3) (Some (PerPage 2))) = [50]
   \<and> qr_items (query_token_inventory [10, 20, 30, 40, 50 :: nat] (Some 9) (Some (PerPage 2))) = []
   \<and> qr_pages (query_token_inventory [10, 20, 30, 40, 50 :: nat] (Some 9) (Some (PerPage 2))) = 3"
proof -
  have c: "\<lceil>(5::real) / 2\<rceil> = 3" by simp
  show ?thesis
    using query_token_inventory_numeric[of "[10, 20, 30, 40, 50 :: nat]" "PerPage 2" 3 2]
      query_token_inventory_numeric[of "[10, 20, 30, 40, 50 :: nat]" "PerPage 2" 9 2] c
    by simp
qed

text \<open>
  Claim C9.  With the sentinel \<open>"all"\<close> nothing is sliced: every filtered record is
  returned, \<open>pages = 1\<close>, and the sentinel comes back unchanged in \<open>per_page\<close>.
\<close>

theorem query_token_inventory_all:
  "qr_items (query_token_inventory filtered page (Some All)) = filtered
   \<and> qr_pages (query_token_inventory filtered page (Some All)) = 1
   \<and> qr_per_page (query_token_inventory filtered page (Some All)) = All
   \<and> qr_total (query_token_inventory filtered page (Some All)) = int (length filtered)"
  by (simp add: query_token_inventory_def Let_def)

text \<open>
  The two examples of the specification: 40 records with the defaults, and page 99 of them.
\<close>

lemma default_pagination_of_40:
  "length filtered = 40 \<Longrightarrow>
     qr_total (query_token_inventory filtered None None) = 40
   \<and> qr_page (query_token_inventory filtered None None) = 1
   \<and> qr_per_page (query_token_inventory filtered None None) = PerPage 30
   \<and> qr_pages (query_token_inventory filtered None None) = 2
   \<and> length (qr_items (query_token_inventory filtered None None)) = 30"
  by (simp add: query_token_inventory_def Let_def py_slice_def)

lemma page_99_of_40:
  "length filtered = 40 \<Longrightarrow>
     qr_items (query_token_inventory filtered (Some 99) (Some (PerPage 30))) = []
   \<and> qr_total (query_token_inventory filtered (Some 99) (Some (PerPage 30))) = 40
   \<and> qr_pages (query_token_inventory filtered (Some 99) (Some (PerPage 30))) = 2"
  by (simp add: query_token_inventory_def Let_def py_slice_def)

end
